theory Spec2Isabelle
  imports Main "HOL-Library.Sublist"
begin

section \<open>JavaScript strings\<close>

text \<open>
  A JavaScript string is a finite sequence of UTF-16 code units. A code unit is modelled
  by its numeric value (a natural number below \<open>0x10000\<close>); \<open>js\<close> writes a string of
  Latin-1 characters as such a sequence.
\<close>

type_synonym code_unit = nat
type_synonym jsstring = "code_unit list"

definition js :: "string \<Rightarrow> jsstring" where
  "js s = map of_char s"

section \<open>The built-ins the opener plugin calls\<close>

subsection \<open>\<open>String.prototype.match\<close> with \<open>TREE_PATTERN\<close>\<close>

text \<open>
  \<^verbatim>\<open>const TREE_PATTERN = new RegExp('/(griffin-notebooks)/(.*)');\<close>

  The pattern has no flags and no anchors. \<open>match\<close> tries each start position from the
  left; at a position the literal \<open>/griffin-notebooks/\<close> must follow, and the greedy
  \<open>(.*)\<close> then takes every code unit up to the first line terminator (without the
  \<open>s\<close> flag the dot excludes U+000A, U+000D, U+2028 and U+2029). The result is the
  array of the whole match and the two groups, or \<open>null\<close> (here \<open>None\<close>).
\<close>

definition LineTerminator :: "code_unit \<Rightarrow> bool" where
  "LineTerminator c \<longleftrightarrow> c = 0x0A \<or> c = 0x0D \<or> c = 0x2028 \<or> c = 0x2029"

definition TREE_SEGMENT :: jsstring where
  "TREE_SEGMENT = js ''/griffin-notebooks/''"

definition TREE_PATTERN_at :: "jsstring \<Rightarrow> jsstring list option" where
  "TREE_PATTERN_at s =
     (if prefix TREE_SEGMENT s then
        let rest = takeWhile (\<lambda>c. \<not> LineTerminator c) (drop (length TREE_SEGMENT) s)
        in Some [TREE_SEGMENT @ rest, js ''griffin-notebooks'', rest]
      else None)"

fun match_TREE_PATTERN :: "jsstring \<Rightarrow> jsstring list option" where
  "match_TREE_PATTERN [] = TREE_PATTERN_at []"
| "match_TREE_PATTERN (c # cs) =
     (case TREE_PATTERN_at (c # cs) of
        Some m \<Rightarrow> Some m
      | None \<Rightarrow> match_TREE_PATTERN cs)"

text \<open>
  \<^verbatim>\<open>const [, , path] = matches;\<close> reads index 2 of the array; past the end of the
  array the variable is \<open>undefined\<close> (here \<open>None\<close>).
\<close>

definition third :: "'a list \<Rightarrow> 'a option" where
  "third xs = (if 2 < length xs then Some (xs ! 2) else None)"

subsection \<open>\<open>decodeURIComponent\<close>\<close>

text \<open>
  The Decode operation of ECMAScript with an empty set of preserved escapes. Every
  \<open>throw a URIError\<close> of the algorithm is the value \<open>None\<close>.
\<close>

definition hex_digit :: "code_unit \<Rightarrow> nat option" where
  "hex_digit c =
     (if 0x30 \<le> c \<and> c \<le> 0x39 then Some (c - 0x30)
      else if 0x41 \<le> c \<and> c \<le> 0x46 then Some (c - 0x41 + 10)
      else if 0x61 \<le> c \<and> c \<le> 0x66 then Some (c - 0x61 + 10)
      else None)"

fun ParseHexOctet :: "code_unit list \<Rightarrow> nat option" where
  "ParseHexOctet (h # l # _) =
     (case hex_digit h of
        None \<Rightarrow> None
      | Some x \<Rightarrow> (case hex_digit l of None \<Rightarrow> None | Some y \<Rightarrow> Some (16 * x + y)))"
| "ParseHexOctet _ = None"

definition leading_ones :: "nat \<Rightarrow> nat" where
  "leading_ones B =
     (if B < 0x80 then 0 else if B < 0xC0 then 1 else if B < 0xE0 then 2
      else if B < 0xF0 then 3 else if B < 0xF8 then 4 else 5)"

text \<open>The \<open>j\<close> escapes \<open>%XX\<close> that must follow the first octet of a multi-byte sequence.\<close>

fun continuation_octets :: "nat \<Rightarrow> code_unit list \<Rightarrow> nat list option" where
  "continuation_octets 0 s = Some []"
| "continuation_octets (Suc j) s =
     (case s of
        p # rest \<Rightarrow>
          (if p \<noteq> 0x25 then None
           else case ParseHexOctet rest of
                  None \<Rightarrow> None
                | Some b \<Rightarrow> map_option ((#) b) (continuation_octets j (drop 2 rest)))
      | [] \<Rightarrow> None)"

text \<open>
  The code point of a sequence of 2, 3 or 4 octets, when the sequence is a valid UTF-8
  encoding: every continuation octet is \<open>10xxxxxx\<close>, the encoding is the shortest one,
  and the value is no surrogate and at most U+10FFFF.
\<close>

definition utf8_code_point :: "nat list \<Rightarrow> nat option" where
  "utf8_code_point octets =
     (case octets of
        [] \<Rightarrow> None
      | B # conts \<Rightarrow>
          let n = length octets;
              V = fold (\<lambda>b v. v * 64 + b mod 64) conts (B mod 2 ^ (7 - n));
              least = (if n = 2 then 0x80 else if n = 3 then 0x800 else 0x10000)
          in if (\<forall>b \<in> set conts. 0x80 \<le> b \<and> b < 0xC0) \<and> least \<le> V \<and> V \<le> 0x10FFFF
                \<and> \<not> (0xD800 \<le> V \<and> V \<le> 0xDFFF)
             then Some V else None)"

definition UTF16EncodeCodePoint :: "nat \<Rightarrow> jsstring" where
  "UTF16EncodeCodePoint V =
     (if V \<le> 0xFFFF then [V]
      else [(V - 0x10000) div 0x400 + 0xD800, (V - 0x10000) mod 0x400 + 0xDC00])"

fun decodeURIComponent :: "jsstring \<Rightarrow> jsstring option" where
  "decodeURIComponent [] = Some []"
| "decodeURIComponent (C # cs) =
     (if C \<noteq> 0x25 then map_option ((#) C) (decodeURIComponent cs)
      else case ParseHexOctet cs of
             None \<Rightarrow> None
           | Some B \<Rightarrow>
               let n = leading_ones B in
               if n = 0 then map_option ((#) B) (decodeURIComponent (drop 2 cs))
               else if n = 1 \<or> n > 4 then None
               else (case continuation_octets (n - 1) (drop 2 cs) of
                       None \<Rightarrow> None
                     | Some conts \<Rightarrow>
                         (case utf8_code_point (B # conts) of
                            None \<Rightarrow> None
                          | Some V \<Rightarrow>
                              map_option ((@) (UTF16EncodeCodePoint V))
                                (decodeURIComponent (drop (2 + 3 * (n - 1)) cs)))))"

subsection \<open>\<open>URLSearchParams\<close>\<close>

text \<open>
  \<^verbatim>\<open>new URLSearchParams(init)\<close> with a string: the string is converted to scalar
  values (a lone surrogate becomes U+FFFD), a leading \<open>?\<close> is removed, and the rest goes
  through the \<open>application/x-www-form-urlencoded\<close> parser of the URL standard: UTF-8
  encode, split at \<open>&\<close>, drop empty pieces, split each piece at its first \<open>=\<close>, turn
  \<open>+\<close> into a space, percent-decode, and UTF-8 decode with replacement.
\<close>

fun scalar_values :: "jsstring \<Rightarrow> nat list" where
  "scalar_values [] = []"
| "scalar_values (c # cs) =
     (if 0xD800 \<le> c \<and> c < 0xDC00 then
        (case cs of
           [] \<Rightarrow> [0xFFFD]
         | d # ds \<Rightarrow>
             if 0xDC00 \<le> d \<and> d < 0xE000
             then (0x10000 + (c - 0xD800) * 0x400 + (d - 0xDC00)) # scalar_values ds
             else 0xFFFD # scalar_values cs)
      else if 0xDC00 \<le> c \<and> c < 0xE000 then 0xFFFD # scalar_values cs
      else c # scalar_values cs)"

definition utf8_encode_code_point :: "nat \<Rightarrow> nat list" where
  "utf8_encode_code_point V =
     (if V < 0x80 then [V]
      else if V < 0x800 then [0xC0 + V div 0x40, 0x80 + V mod 0x40]
      else if V < 0x10000 then
        [0xE0 + V div 0x1000, 0x80 + (V div 0x40) mod 0x40, 0x80 + V mod 0x40]
      else [0xF0 + V div 0x40000, 0x80 + (V div 0x1000) mod 0x40,
            0x80 + (V div 0x40) mod 0x40, 0x80 + V mod 0x40])"

definition utf8_encode :: "nat list \<Rightarrow> nat list" where
  "utf8_encode vs = concat (map utf8_encode_code_point vs)"

fun split_on :: "nat \<Rightarrow> nat list \<Rightarrow> nat list list" where
  "split_on d [] = [[]]"
| "split_on d (b # bs) =
     (if b = d then [] # split_on d bs
      else case split_on d bs of
             [] \<Rightarrow> [[b]]
           | piece # pieces \<Rightarrow> (b # piece) # pieces)"

fun percent_decode :: "nat list \<Rightarrow> nat list" where
  "percent_decode [] = []"
| "percent_decode (b # bs) =
     (if b \<noteq> 0x25 then b # percent_decode bs
      else case ParseHexOctet bs of
             None \<Rightarrow> b # percent_decode bs
           | Some v \<Rightarrow> v # percent_decode (drop 2 bs))"

text \<open>
  The UTF-8 decoder of the Encoding standard, with replacement as its error mode. The
  arguments are the decoder's state: the code point so far, the number of bytes still
  needed, and the bounds of the next byte. A byte outside the bounds ends the sequence
  with U+FFFD and is then read again as the first byte of a sequence.
\<close>

datatype utf8_first = Single nat | Lead nat nat nat nat | Invalid

definition utf8_first_byte :: "nat \<Rightarrow> utf8_first" where
  "utf8_first_byte b =
     (if b \<le> 0x7F then Single b
      else if 0xC2 \<le> b \<and> b \<le> 0xDF then Lead (b mod 0x20) 1 0x80 0xBF
      else if 0xE0 \<le> b \<and> b \<le> 0xEF then
        Lead (b mod 0x10) 2 (if b = 0xE0 then 0xA0 else 0x80) (if b = 0xED then 0x9F else 0xBF)
      else if 0xF0 \<le> b \<and> b \<le> 0xF4 then
        Lead (b mod 8) 3 (if b = 0xF0 then 0x90 else 0x80) (if b = 0xF4 then 0x8F else 0xBF)
      else Invalid)"

fun utf8_decode_from :: "nat \<Rightarrow> nat \<Rightarrow> nat \<Rightarrow> nat \<Rightarrow> nat list \<Rightarrow> nat list" where
  "utf8_decode_from cp needed lower upper [] = (if needed \<noteq> 0 then [0xFFFD] else [])"
| "utf8_decode_from cp needed lower upper (b # bs) =
     (if needed \<noteq> 0 \<and> lower \<le> b \<and> b \<le> upper then
        (if needed = 1 then (cp * 0x40 + b mod 0x40) # utf8_decode_from 0 0 0x80 0xBF bs
         else utf8_decode_from (cp * 0x40 + b mod 0x40) (needed - 1) 0x80 0xBF bs)
      else
        (if needed \<noteq> 0 then [0xFFFD] else []) @
        (case utf8_first_byte b of
           Single c \<Rightarrow> c # utf8_decode_from 0 0 0x80 0xBF bs
         | Lead cp' needed' lower' upper' \<Rightarrow> utf8_decode_from cp' needed' lower' upper' bs
         | Invalid \<Rightarrow> 0xFFFD # utf8_decode_from 0 0 0x80 0xBF bs))"

definition utf8_decode_without_BOM :: "nat list \<Rightarrow> jsstring" where
  "utf8_decode_without_BOM bytes =
     concat (map UTF16EncodeCodePoint (utf8_decode_from 0 0 0x80 0xBF bytes))"

definition plus_to_space :: "nat list \<Rightarrow> nat list" where
  "plus_to_space bytes = map (\<lambda>b. if b = 0x2B then 0x20 else b) bytes"

text \<open>
  What the parser does to the bytes of a name and to the bytes of a value: \<open>+\<close> becomes
  a space, then percent-decoding, then UTF-8 decoding.
\<close>

definition form_decode :: "nat list \<Rightarrow> jsstring" where
  "form_decode bytes = utf8_decode_without_BOM (percent_decode (plus_to_space bytes))"

definition urlencoded_pair :: "nat list \<Rightarrow> jsstring \<times> jsstring" where
  "urlencoded_pair bytes =
     (let name = takeWhile (\<lambda>b. b \<noteq> 0x3D) bytes;
          val = drop 1 (dropWhile (\<lambda>b. b \<noteq> 0x3D) bytes)
      in (form_decode name, form_decode val))"

definition urlencoded_parse :: "nat list \<Rightarrow> (jsstring \<times> jsstring) list" where
  "urlencoded_parse input =
     map urlencoded_pair (filter (\<lambda>bytes. bytes \<noteq> []) (split_on 0x26 input))"

definition URLSearchParams_string :: "jsstring \<Rightarrow> (jsstring \<times> jsstring) list" where
  "URLSearchParams_string init =
     (let vs = scalar_values init;
          vs' = (case vs of [] \<Rightarrow> [] | v # rest \<Rightarrow> if v = 0x3F then rest else vs)
      in urlencoded_parse (utf8_encode vs'))"

text \<open>
  The constructor's argument is optional: with \<open>undefined\<close> (here \<open>None\<close>) the list of
  pairs is empty.
\<close>

definition URLSearchParams_new :: "jsstring option \<Rightarrow> (jsstring \<times> jsstring) list" where
  "URLSearchParams_new init =
     (case init of None \<Rightarrow> [] | Some s \<Rightarrow> URLSearchParams_string s)"

text \<open>\<open>get\<close> returns the value of the first pair with the name, or \<open>null\<close>.\<close>

definition URLSearchParams_get :: "(jsstring \<times> jsstring) list \<Rightarrow> jsstring \<Rightarrow> jsstring option" where
  "URLSearchParams_get params name = map_of params name"

subsection \<open>Strings and their UTF-8 bytes\<close>

text \<open>
  The bytes the parser works on: the UTF-8 encoding of the scalar values of a string.
  A surrogate is a code unit in the range D800 to DFFF; a scalar value is a code point
  that is no surrogate; a string is well formed when its code units are below
  \<open>0x10000\<close> and every surrogate in it is half of a pair.
\<close>

definition utf8_bytes :: "jsstring \<Rightarrow> nat list" where
  "utf8_bytes s = utf8_encode (scalar_values s)"

definition surrogate :: "nat \<Rightarrow> bool" where
  "surrogate c \<longleftrightarrow> 0xD800 \<le> c \<and> c < 0xE000"

definition scalar_value :: "nat \<Rightarrow> bool" where
  "scalar_value V \<longleftrightarrow> V < 0x110000 \<and> \<not> (0xD800 \<le> V \<and> V < 0xE000)"

fun well_formed :: "jsstring \<Rightarrow> bool" where
  "well_formed [] = True"
| "well_formed (c # cs) =
     (if 0xD800 \<le> c \<and> c < 0xDC00 then
        (case cs of
           [] \<Rightarrow> False
         | d # ds \<Rightarrow> 0xDC00 \<le> d \<and> d < 0xE000 \<and> well_formed ds)
      else \<not> (0xDC00 \<le> c \<and> c < 0xE000) \<and> c < 0x10000 \<and> well_formed cs)"

section \<open>The opener plugin\<close>

text \<open>
  The command \<open>router:tree\<close> receives an \<open>IRouter.ILocation\<close>. It either returns
  without doing anything, or throws, or attaches to \<open>app.started\<close> a continuation that
  calls \<^verbatim>\<open>docManager.open(file, factory, undefined, { ref: '_noref' })\<close>.
\<close>

record ILocation =
  hash :: jsstring
  path :: jsstring
  request :: jsstring
  search :: "jsstring option"

record open_call =
  doc_path :: jsstring
  widgetName :: jsstring
  ref :: jsstring

datatype js_error = URIError

datatype effect = NoAction | OpenWhenStarted open_call

text \<open>
  \<^verbatim>\<open>const matches = parsed.path.match(TREE_PATTERN) ?? [];\<close>
  \<^verbatim>\<open>const [, , path] = matches;\<close>
\<close>

definition matched_path :: "jsstring \<Rightarrow> jsstring option" where
  "matched_path p =
     (let matches = (case match_TREE_PATTERN p of None \<Rightarrow> [] | Some m \<Rightarrow> m)
      in third matches)"

text \<open>
  \<^verbatim>\<open>const urlParams = new URLSearchParams(parsed.search);\<close>
  \<^verbatim>\<open>const factory = urlParams.get('factory') ?? 'default';\<close>
\<close>

definition factory_name :: "jsstring option \<Rightarrow> jsstring" where
  "factory_name q =
     (let urlParams = URLSearchParams_new q
      in case URLSearchParams_get urlParams (js ''factory'') of
           None \<Rightarrow> js ''default''
         | Some v \<Rightarrow> v)"

definition execute :: "ILocation \<Rightarrow> js_error + effect" where
  "execute parsed =
     (case matched_path (path parsed) of
        None \<Rightarrow> Inr NoAction
      | Some p \<Rightarrow>
          if p = [] then Inr NoAction
          else (case decodeURIComponent p of
                  None \<Rightarrow> Inl URIError
                | Some file \<Rightarrow>
                    Inr (OpenWhenStarted
                      \<lparr>doc_path = file, widgetName = factory_name (search parsed),
                       ref = js ''_noref''\<rparr>)))"

section \<open>The menus plugin\<close>

text \<open>
  Modelled from the spec: the host's menu bar, "a menu-bar object exposing named menu
  handles with a dispose operation". The record has the menus of \<open>IMainMenu\<close>; whatever
  else the menu bar holds is the record's extension.
\<close>

record menu =
  isDisposed :: bool

definition dispose :: "menu \<Rightarrow> menu" where
  "dispose m = m\<lparr>isDisposed := True\<rparr>"

record IMainMenu =
  fileMenu :: menu
  editMenu :: menu
  viewMenu :: menu
  runMenu :: menu
  kernelMenu :: menu
  tabsMenu :: menu
  settingsMenu :: menu
  helpMenu :: menu

definition menus_activate :: "'a IMainMenu_scheme \<Rightarrow> 'a IMainMenu_scheme" where
  "menus_activate m =
     (let m1 = m\<lparr>fileMenu := dispose (fileMenu m)\<rparr>
      in m1\<lparr>tabsMenu := dispose (tabsMenu m1)\<rparr>)"

section \<open>The theme plugin\<close>

text \<open>
  Modelled from the spec: the host's page configuration, "a page-configuration reader
  exposing get option by name" (an option that is not set reads as the empty string),
  and the host's theme manager, "a theme manager exposing set theme by name", of which
  the model keeps the names it was asked to set, in order.
\<close>

type_synonym PageConfig = "jsstring \<rightharpoonup> jsstring"

definition getOption :: "PageConfig \<Rightarrow> jsstring \<Rightarrow> jsstring" where
  "getOption config name = (case config name of None \<Rightarrow> [] | Some v \<Rightarrow> v)"

record IThemeManager =
  setTheme_calls :: "jsstring list"

definition setTheme :: "jsstring \<Rightarrow> IThemeManager \<Rightarrow> IThemeManager" where
  "setTheme name tm = tm\<lparr>setTheme_calls := setTheme_calls tm @ [name]\<rparr>"

definition theme_activate :: "PageConfig \<Rightarrow> IThemeManager \<Rightarrow> IThemeManager" where
  "theme_activate config themeManager =
     (let darkTheme = getOption config (js ''darkTheme'')
      in if darkTheme = js ''true'' then setTheme (js ''JupyterLab Dark'') themeManager
         else setTheme (js ''JupyterLab Light'') themeManager)"

section \<open>The shell\<close>

text \<open>
  Modelled from the spec: the host's base class \<open>NotebookShell\<close>, "a shell base type
  exposing collapse top panel and expand top panel hooks", whose state is "a single
  boolean (top panel visible)"; the rest of the base class's state is the record's
  extension.
\<close>

record NotebookShell =
  topVisible :: bool

definition collapseTop :: "'a NotebookShell_scheme \<Rightarrow> 'a NotebookShell_scheme" where
  "collapseTop s = s\<lparr>topVisible := False\<rparr>"

definition NotebookShell_expandTop :: "'a NotebookShell_scheme \<Rightarrow> 'a NotebookShell_scheme" where
  "NotebookShell_expandTop s = s\<lparr>topVisible := True\<rparr>"

text \<open>
  \<open>GriffinNotebookShell\<close>: the constructor runs the base constructor (its result is
  the argument \<open>base\<close>) and then \<open>collapseTop\<close>; \<open>expandTop\<close> is overridden with an
  empty body.
\<close>

definition GriffinNotebookShell_new :: "'a NotebookShell_scheme \<Rightarrow> 'a NotebookShell_scheme" where
  "GriffinNotebookShell_new base = collapseTop base"

definition expandTop :: "'a NotebookShell_scheme \<Rightarrow> 'a NotebookShell_scheme" where
  "expandTop s = s"

text \<open>
  The two top-panel hooks as a \<open>GriffinNotebookShell\<close> answers them: \<open>expandTop\<close>
  dispatches to the override, \<open>collapseTop\<close> to the inherited method.
\<close>

datatype shell_call = ExpandTop | CollapseTop

fun shell_step :: "shell_call \<Rightarrow> 'a NotebookShell_scheme \<Rightarrow> 'a NotebookShell_scheme" where
  "shell_step ExpandTop s = expandTop s"
| "shell_step CollapseTop s = collapseTop s"

section \<open>The application\<close>

text \<open>
  \<open>NotebookApp.IOptions\<close>: the field \<open>shell\<close> (\<open>None\<close> when absent, \<open>undefined\<close> or
  \<open>null\<close>) and the other fields, by name. The constructor's argument is \<open>None\<close> when
  the caller passes none; the result is the object handed to the base constructor.
  \<open>base\<close> is the state the base shell constructor produces.
\<close>

record ('s, 'v) IOptions =
  shell :: "'s option"
  other_fields :: "string \<rightharpoonup> 'v"

definition GriffinNotebookApp_new ::
  "'a NotebookShell_scheme \<Rightarrow> ('a NotebookShell_scheme, 'v) IOptions option
     \<Rightarrow> ('a NotebookShell_scheme, 'v) IOptions" where
  "GriffinNotebookApp_new base arg =
     (let options =
        (case arg of
           None \<Rightarrow> \<lparr>shell = Some (GriffinNotebookShell_new base), other_fields = Map.empty\<rparr>
         | Some given \<Rightarrow> given)
      in options\<lparr>shell :=
           Some (case shell options of
                   None \<Rightarrow> GriffinNotebookShell_new base
                 | Some s \<Rightarrow> s)\<rparr>)"

section \<open>Evaluation on concrete inputs\<close>

text \<open>
  The weak congruence rules make the simplifier evaluate the scrutinee of a \<open>case\<close>, the
  bound term of a \<open>let\<close> and the condition of an \<open>if\<close> before it looks at the branches.
\<close>

lemmas eval_congs =
  option.case_cong_weak list.case_cong_weak utf8_first.case_cong_weak let_weak_cong if_weak_cong

lemma continuation_octets_numeral:
  "continuation_octets (numeral k) s =
     (case s of
        p # rest \<Rightarrow>
          (if p \<noteq> 0x25 then None
           else case ParseHexOctet rest of
                  None \<Rightarrow> None
                | Some b \<Rightarrow> map_option ((#) b) (continuation_octets (pred_numeral k) (drop 2 rest)))
      | [] \<Rightarrow> None)"
  by (simp add: numeral_eq_Suc)

lemmas path_defs =
  js_def matched_path_def third_def TREE_PATTERN_at_def TREE_SEGMENT_def LineTerminator_def
  hex_digit_def leading_ones_def utf8_code_point_def UTF16EncodeCodePoint_def Let_def
  continuation_octets_numeral

lemmas query_defs =
  js_def factory_name_def URLSearchParams_get_def URLSearchParams_new_def
  URLSearchParams_string_def urlencoded_parse_def
  urlencoded_pair_def form_decode_def utf8_bytes_def utf8_encode_def utf8_encode_code_point_def plus_to_space_def
  utf8_decode_without_BOM_def utf8_first_byte_def UTF16EncodeCodePoint_def hex_digit_def Let_def

section \<open>The tree pattern and the captured remainder\<close>

lemma TREE_SEGMENT_not_Nil: "TREE_SEGMENT \<noteq> []"
  by (simp add: TREE_SEGMENT_def js_def)

lemma TREE_PATTERN_at_None: "TREE_PATTERN_at s = None \<longleftrightarrow> \<not> prefix TREE_SEGMENT s"
  by (simp add: TREE_PATTERN_at_def Let_def)

lemma TREE_PATTERN_at_Some:
  "TREE_PATTERN_at s = Some m \<Longrightarrow>
     prefix TREE_SEGMENT s \<and>
     third m = Some (takeWhile (\<lambda>c. \<not> LineTerminator c) (drop (length TREE_SEGMENT) s))"
  by (auto simp: TREE_PATTERN_at_def Let_def third_def split: if_splits)
lemma match_None_iff: "match_TREE_PATTERN s = None \<longleftrightarrow> \<not> sublist TREE_SEGMENT s"
proof (induction s)
  case Nil
  show ?case by (simp add: TREE_PATTERN_at_None TREE_SEGMENT_not_Nil)
next
  case (Cons c cs)
  show ?case
  proof (cases "TREE_PATTERN_at (c # cs)")
    case None
    then have "\<not> prefix TREE_SEGMENT (c # cs)" by (simp add: TREE_PATTERN_at_None)
    with None Cons show ?thesis by (simp add: sublist_Cons_right)
  next
    case (Some m)
    then have "prefix TREE_SEGMENT (c # cs)" by (simp add: TREE_PATTERN_at_Some)
    with Some show ?thesis by (simp add: sublist_Cons_right)
  qed
qed

lemma set_rest_subset:
  "set (takeWhile P (drop n s)) \<subseteq> set s"
proof
  fix x assume "x \<in> set (takeWhile P (drop n s))"
  then have "x \<in> set (drop n s)" by (rule set_takeWhileD [THEN conjunct1])
  then show "x \<in> set s" by (rule in_set_dropD)
qed

lemma match_Some_third:
  "match_TREE_PATTERN s = Some m \<Longrightarrow> \<exists>r. third m = Some r \<and> set r \<subseteq> set s"
proof (induction s)
  case Nil
  then show ?case by (simp add: TREE_PATTERN_at_def TREE_SEGMENT_not_Nil)
next
  case (Cons c cs)
  show ?case
  proof (cases "TREE_PATTERN_at (c # cs)")
    case None
    with Cons show ?thesis by auto
  next
    case (Some m')
    with Cons.prems have "m' = m" by simp
    with Some have "third m = Some (takeWhile (\<lambda>c. \<not> LineTerminator c)
        (drop (length TREE_SEGMENT) (c # cs)))"
      by (simp add: TREE_PATTERN_at_Some)
    then show ?thesis
      using set_rest_subset [of "\<lambda>c. \<not> LineTerminator c" "length TREE_SEGMENT" "c # cs"] by simp
  qed
qed


lemma matched_path_subset:
  assumes "matched_path p = Some r"
  shows "set r \<subseteq> set p"
proof (cases "match_TREE_PATTERN p")
  case None
  with assms show ?thesis by (simp add: matched_path_def third_def)
next
  case (Some m)
  then obtain r' where "third m = Some r'" and "set r' \<subseteq> set p"
    using match_Some_third by blast
  with Some assms show ?thesis by (simp add: matched_path_def)
qed

lemma matched_path_at_start:
  "matched_path (TREE_SEGMENT @ enc) = Some (takeWhile (\<lambda>c. \<not> LineTerminator c) enc)"
proof -
  obtain c cs where s: "TREE_SEGMENT @ enc = c # cs"
    using TREE_SEGMENT_not_Nil by (cases "TREE_SEGMENT @ enc") auto
  have "TREE_PATTERN_at (TREE_SEGMENT @ enc) \<noteq> None"
    by (simp add: TREE_PATTERN_at_None)
  then obtain m where m: "TREE_PATTERN_at (TREE_SEGMENT @ enc) = Some m" by blast
  then have "match_TREE_PATTERN (TREE_SEGMENT @ enc) = Some m"
    by (simp add: s)
  moreover from m have "third m = Some (takeWhile (\<lambda>c. \<not> LineTerminator c) enc)"
    by (simp add: TREE_PATTERN_at_Some)
  ultimately show ?thesis by (simp add: matched_path_def)
qed

lemma matched_path_None_iff: "matched_path p = None \<longleftrightarrow> \<not> sublist TREE_SEGMENT p"
proof (cases "match_TREE_PATTERN p")
  case None
  then show ?thesis using match_None_iff [of p] by (simp add: matched_path_def third_def)
next
  case (Some m)
  then show ?thesis using match_None_iff [of p] match_Some_third [of p m]
    by (auto simp: matched_path_def)
qed

lemma decodeURIComponent_plain: "0x25 \<notin> set s \<Longrightarrow> decodeURIComponent s = Some s"
  by (induction s) simp_all

section \<open>The query string\<close>

lemma split_on_not_Nil: "split_on d s \<noteq> []"
  by (induction s) (auto split: list.splits)

lemma split_on_append: "split_on d (a @ d # x) = split_on d a @ split_on d x"
proof (induction a)
  case Nil
  show ?case by simp
next
  case (Cons c a)
  obtain piece pieces where "split_on d a = piece # pieces"
    using split_on_not_Nil [of d a] by (cases "split_on d a") auto
  with Cons show ?case by simp
qed

lemma split_on_single: "d \<notin> set a \<Longrightarrow> split_on d a = [a]"
  by (induction a) auto

lemma urlencoded_parse_append:
  "urlencoded_parse (a @ 0x26 # x) = urlencoded_parse a @ urlencoded_parse x"
  by (simp add: urlencoded_parse_def split_on_append)

lemma urlencoded_parse_single:
  "0x26 \<notin> set a \<Longrightarrow> a \<noteq> [] \<Longrightarrow> urlencoded_parse a = [urlencoded_pair a]"
  by (simp add: urlencoded_parse_def split_on_single)

lemma utf8_encode_ascii: "\<forall>c \<in> set s. c < 0x80 \<Longrightarrow> utf8_encode s = s"
  by (induction s) (auto simp: utf8_encode_def utf8_encode_code_point_def)

lemma plus_to_space_plain: "0x2B \<notin> set v \<Longrightarrow> plus_to_space v = v"
  by (induction v) (auto simp: plus_to_space_def)

lemma percent_decode_plain: "0x25 \<notin> set v \<Longrightarrow> percent_decode v = v"
  by (induction v) auto

lemma urlencoded_pair_factory:
  "urlencoded_pair (js ''factory='' @ v) =
     (js ''factory'', form_decode v)"
  by (simp add: query_defs cong: eval_congs)

lemma urlencoded_parse_factory_first:
  assumes "0x26 \<notin> set v" and "tail = [] \<or> (\<exists>rest. tail = 0x26 # rest)"
  shows "\<exists>more. urlencoded_parse (js ''factory='' @ v @ tail) =
     (js ''factory'', form_decode v) # more"
proof -
  have amp: "0x26 \<notin> set (js ''factory='' @ v)" using assms(1) by (simp add: js_def)
  have ne: "js ''factory='' @ v \<noteq> []" by (simp add: js_def)
  from assms(2) show ?thesis
  proof
    assume "tail = []"
    then show ?thesis
      using urlencoded_parse_single [OF amp ne] by (simp add: urlencoded_pair_factory)
  next
    assume "\<exists>rest. tail = 0x26 # rest"
    then obtain rest where "tail = 0x26 # rest" by blast
    then have "urlencoded_parse (js ''factory='' @ v @ tail) =
        urlencoded_parse (js ''factory='' @ v) @ urlencoded_parse rest"
      using urlencoded_parse_append [of "js ''factory='' @ v" rest] by simp
    then show ?thesis
      using urlencoded_parse_single [OF amp ne] by (simp add: urlencoded_pair_factory)
  qed
qed

lemma map_of_first_factory:
  assumes "before = [] \<or> (\<exists>b. before = b @ [0x26])"
    and "js ''factory'' \<notin> fst ` set (urlencoded_parse before)"
    and "0x26 \<notin> set v"
    and "tail = [] \<or> (\<exists>rest. tail = 0x26 # rest)"
  shows "map_of (urlencoded_parse (before @ js ''factory='' @ v @ tail)) (js ''factory'') =
     Some (form_decode v)"
proof -
  obtain more where first: "urlencoded_parse (js ''factory='' @ v @ tail) =
      (js ''factory'', form_decode v) # more"
    using urlencoded_parse_factory_first [OF assms(3,4)] by blast
  from assms(1) show ?thesis
  proof
    assume "before = []"
    with first show ?thesis by simp
  next
    assume "\<exists>b. before = b @ [0x26]"
    then obtain b where b: "before = b @ [0x26]" by blast
    have "urlencoded_parse before = urlencoded_parse b"
      using urlencoded_parse_append [of b "[]"] by (simp add: b urlencoded_parse_def)
    with assms(2) have none: "map_of (urlencoded_parse b) (js ''factory'') = None"
      by (simp add: map_of_eq_None_iff)
    have "urlencoded_parse (before @ js ''factory='' @ v @ tail) =
        urlencoded_parse b @ urlencoded_parse (js ''factory='' @ v @ tail)"
      using urlencoded_parse_append [of b "js ''factory='' @ v @ tail"] by (simp add: b)
    with none first show ?thesis by (simp add: map_add_def)
  qed
qed

lemma map_of_first_match:
  assumes "k \<notin> fst ` set pre"
  shows "map_of (pre @ (k, v) # post) k = Some v"
proof -
  from assms have "map_of pre k = None" by (simp add: map_of_eq_None_iff)
  then show ?thesis by (simp add: map_add_def)
qed

lemma scalar_values_append_plain:
  "\<not> surrogate c \<Longrightarrow> scalar_values (a @ c # b) = scalar_values a @ c # scalar_values b"
proof (induction a rule: scalar_values.induct)
  case 1
  then show ?case by (auto simp: surrogate_def)
next
  case (2 x xs)
  show ?case
  proof (cases xs)
    case Nil
    with "2.prems" show ?thesis by (auto simp: surrogate_def)
  next
    case (Cons d ds)
    with 2 show ?thesis by simp
  qed
qed

lemma scalar_values_ascii_prefix:
  "\<forall>c \<in> set m. c < 0x80 \<Longrightarrow> scalar_values (m @ b) = m @ scalar_values b"
  by (induction m) auto

lemma utf8_encode_append: "utf8_encode (x @ y) = utf8_encode x @ utf8_encode y"
  by (simp add: utf8_encode_def)

lemma utf8_bytes_plain_cut:
  "c < 0x80 \<Longrightarrow> utf8_bytes (a @ c # b) = utf8_bytes a @ c # utf8_bytes b"
  by (simp add: utf8_bytes_def scalar_values_append_plain surrogate_def utf8_encode_append
      utf8_encode_def utf8_encode_code_point_def)

lemma utf8_bytes_ascii_prefix:
  "\<forall>c \<in> set m. c < 0x80 \<Longrightarrow> utf8_bytes (m @ b) = m @ utf8_bytes b"
  by (simp add: utf8_bytes_def scalar_values_ascii_prefix utf8_encode_append utf8_encode_ascii)

lemma utf8_bytes_Nil: "utf8_bytes [] = []"
  by (simp add: utf8_bytes_def utf8_encode_def)

lemma ascii_in_utf8_encode_code_point:
  "b < 0x80 \<Longrightarrow> b \<in> set (utf8_encode_code_point V) \<longleftrightarrow> V = b"
  by (auto simp: utf8_encode_code_point_def)

lemma ascii_in_utf8_encode:
  "b < 0x80 \<Longrightarrow> b \<in> set (utf8_encode vs) \<longleftrightarrow> b \<in> set vs"
  by (induction vs) (auto simp: utf8_encode_def ascii_in_utf8_encode_code_point)

lemma ascii_in_scalar_values:
  "b < 0x80 \<Longrightarrow> b \<in> set (scalar_values s) \<longleftrightarrow> b \<in> set s"
  by (induction s rule: scalar_values.induct) (auto split: list.splits)

lemma ascii_in_utf8_bytes:
  "b < 0x80 \<Longrightarrow> b \<in> set (utf8_bytes s) \<longleftrightarrow> b \<in> set s"
  by (simp add: utf8_bytes_def ascii_in_utf8_encode ascii_in_scalar_values)

lemma URLSearchParams_string_question:
  "URLSearchParams_string (0x3F # s) = urlencoded_parse (utf8_bytes s)"
  by (simp add: URLSearchParams_string_def utf8_bytes_def)

lemma strip_question_id:
  "xs = [] \<or> hd xs \<noteq> 0x3F \<Longrightarrow>
   (case xs of [] \<Rightarrow> [] | v # rest \<Rightarrow> if v = 0x3F then rest else xs) = xs"
  by (cases xs) auto

lemma scalar_values_no_question:
  "s = [] \<or> hd s \<noteq> 0x3F \<Longrightarrow> scalar_values s = [] \<or> hd (scalar_values s) \<noteq> 0x3F"
  by (cases s) (auto split: list.splits)

lemma URLSearchParams_string_no_question:
  assumes "s = [] \<or> hd s \<noteq> 0x3F"
  shows "URLSearchParams_string s = urlencoded_parse (utf8_bytes s)"
  using strip_question_id [OF scalar_values_no_question [OF assms]]
  by (simp add: URLSearchParams_string_def utf8_bytes_def Let_def)

lemma utf8_bytes_first_factory:
  assumes "tail = [] \<or> (\<exists>rest. tail = 0x26 # rest)"
  shows "\<exists>tail'. (tail' = [] \<or> (\<exists>rest'. tail' = 0x26 # rest')) \<and>
     utf8_bytes (before @ js ''factory='' @ name @ tail) =
       utf8_bytes before @ js ''factory='' @ utf8_bytes name @ tail'"
proof -
  have cut: "utf8_bytes (before @ js ''factory='' @ x) =
      utf8_bytes before @ js ''factory='' @ utf8_bytes x" for x
  proof -
    have "utf8_bytes (before @ js ''factory='' @ x) =
        utf8_bytes before @ 0x66 # utf8_bytes (js ''actory='' @ x)"
      using utf8_bytes_plain_cut [of "0x66" before "js ''actory='' @ x"] by (simp add: js_def)
    also have "utf8_bytes (js ''actory='' @ x) = js ''actory='' @ utf8_bytes x"
      by (rule utf8_bytes_ascii_prefix) (simp add: js_def)
    finally show ?thesis by (simp add: js_def)
  qed
  from assms show ?thesis
  proof
    assume "tail = []"
    then show ?thesis using cut [of name] by simp
  next
    assume "\<exists>rest. tail = 0x26 # rest"
    then obtain rest where t: "tail = 0x26 # rest" by blast
    have "utf8_bytes (name @ 0x26 # rest) = utf8_bytes name @ 0x26 # utf8_bytes rest"
      by (rule utf8_bytes_plain_cut) simp
    then have "utf8_bytes (before @ js ''factory='' @ name @ tail) =
        utf8_bytes before @ js ''factory='' @ utf8_bytes name @ 0x26 # utf8_bytes rest"
      using cut [of "name @ tail"] by (simp add: t)
    then show ?thesis by blast
  qed
qed

lemma utf8_bytes_before:
  assumes "before = [] \<or> (\<exists>b. before = b @ [0x26])"
  shows "utf8_bytes before = [] \<or> (\<exists>b'. utf8_bytes before = b' @ [0x26])"
  using assms
proof
  assume "before = []"
  then show ?thesis by (simp add: utf8_bytes_Nil)
next
  assume "\<exists>b. before = b @ [0x26]"
  then obtain b where "before = b @ [0x26]" by blast
  then have "utf8_bytes before = utf8_bytes b @ [0x26]"
    using utf8_bytes_plain_cut [of "0x26" b "[]"] by (simp add: utf8_bytes_Nil)
  then show ?thesis by blast
qed

lemma lookup_first_factory:
  assumes "s = before @ js ''factory='' @ name @ tail"
    and "before = [] \<or> (\<exists>b. before = b @ [0x26])"
    and "js ''factory'' \<notin> fst ` set (urlencoded_parse (utf8_bytes before))"
    and "0x26 \<notin> set name"
    and "tail = [] \<or> (\<exists>rest. tail = 0x26 # rest)"
  shows "map_of (urlencoded_parse (utf8_bytes s)) (js ''factory'') =
     Some (form_decode (utf8_bytes name))"
proof -
  obtain tail' where t: "tail' = [] \<or> (\<exists>rest'. tail' = 0x26 # rest')"
    and b: "utf8_bytes s = utf8_bytes before @ js ''factory='' @ utf8_bytes name @ tail'"
    unfolding assms(1) using utf8_bytes_first_factory [OF assms(5)] by blast
  have amp: "0x26 \<notin> set (utf8_bytes name)"
    using assms(4) by (simp add: ascii_in_utf8_bytes)
  show ?thesis
    unfolding b using utf8_bytes_before [OF assms(2)] assms(3) amp t
    by (rule map_of_first_factory)
qed

lemma factory_name_of_first_factory:
  assumes "s = before @ js ''factory='' @ name @ tail"
    and "before = [] \<or> (\<exists>b. before = b @ [0x26])"
    and "js ''factory'' \<notin> fst ` set (urlencoded_parse (utf8_bytes before))"
    and "0x26 \<notin> set name"
    and "tail = [] \<or> (\<exists>rest. tail = 0x26 # rest)"
  shows "factory_name (Some (js ''?'' @ s)) = form_decode (utf8_bytes name)"
    and "hd s \<noteq> 0x3F \<Longrightarrow> factory_name (Some s) = form_decode (utf8_bytes name)"
proof -
  note look = lookup_first_factory [OF assms]
  have "js ''?'' @ s = 0x3F # s" by (simp add: js_def)
  then show "factory_name (Some (js ''?'' @ s)) = form_decode (utf8_bytes name)"
    using look
    by (simp add: factory_name_def URLSearchParams_get_def URLSearchParams_new_def
        URLSearchParams_string_question)
  show "factory_name (Some s) = form_decode (utf8_bytes name)" if "hd s \<noteq> 0x3F"
    using that look
    by (simp add: factory_name_def URLSearchParams_get_def URLSearchParams_new_def
        URLSearchParams_string_no_question)
qed

subsection \<open>Decoding the UTF-8 bytes of a well-formed string\<close>

lemma decode_1:
  "b < 0x80 \<Longrightarrow>
   utf8_decode_from 0 0 0x80 0xBF (b # rest) = b # utf8_decode_from 0 0 0x80 0xBF rest"
  by (simp add: utf8_first_byte_def)

lemma decode_2:
  assumes "0xC2 \<le> b1" "b1 \<le> 0xDF" "0x80 \<le> b2" "b2 \<le> 0xBF"
  shows "utf8_decode_from 0 0 0x80 0xBF (b1 # b2 # rest) =
     (b1 mod 0x20 * 0x40 + b2 mod 0x40) # utf8_decode_from 0 0 0x80 0xBF rest"
  using assms by (simp add: utf8_first_byte_def)

lemma decode_3:
  assumes "0xE0 \<le> b1" "b1 \<le> 0xEF"
    and "(if b1 = 0xE0 then 0xA0 else 0x80) \<le> b2"
    and "b2 \<le> (if b1 = 0xED then 0x9F else 0xBF)"
    and "0x80 \<le> b3" "b3 \<le> 0xBF"
  shows "utf8_decode_from 0 0 0x80 0xBF (b1 # b2 # b3 # rest) =
     ((b1 mod 0x10 * 0x40 + b2 mod 0x40) * 0x40 + b3 mod 0x40) #
       utf8_decode_from 0 0 0x80 0xBF rest"
  using assms by (simp add: utf8_first_byte_def)

lemma decode_4:
  assumes "0xF0 \<le> b1" "b1 \<le> 0xF4"
    and "(if b1 = 0xF0 then 0x90 else 0x80) \<le> b2"
    and "b2 \<le> (if b1 = 0xF4 then 0x8F else 0xBF)"
    and "0x80 \<le> b3" "b3 \<le> 0xBF" "0x80 \<le> b4" "b4 \<le> 0xBF"
  shows "utf8_decode_from 0 0 0x80 0xBF (b1 # b2 # b3 # b4 # rest) =
     (((b1 mod 8 * 0x40 + b2 mod 0x40) * 0x40 + b3 mod 0x40) * 0x40 + b4 mod 0x40) #
       utf8_decode_from 0 0 0x80 0xBF rest"
  using assms by (simp add: utf8_first_byte_def)

lemma lead_mod:
  fixes a :: nat
  shows "a < 0x20 \<Longrightarrow> (0xC0 + a) mod 0x20 = a"
    and "a < 0x10 \<Longrightarrow> (0xE0 + a) mod 0x10 = a"
    and "a < 8 \<Longrightarrow> (0xF0 + a) mod 8 = a"
    and "a < 0x40 \<Longrightarrow> (0x80 + a) mod 0x40 = a"
  using mod_mult_self3 [of 6 "0x20" a] mod_mult_self3 [of 14 "0x10" a]
    mod_mult_self3 [of 30 8 a] mod_mult_self3 [of 2 "0x40" a]
  by simp_all

lemma split3:
  fixes V :: nat
  shows "V = V div 0x1000 * 0x1000 + (V div 0x40) mod 0x40 * 0x40 + V mod 0x40"
proof -
  have "V div 0x40 div 0x40 = V div 0x1000" by (simp add: div_mult2_eq [symmetric])
  then have "V div 0x40 = V div 0x1000 * 0x40 + (V div 0x40) mod 0x40"
    using div_mult_mod_eq [of "V div 0x40" "0x40"] by simp
  then show ?thesis using div_mult_mod_eq [of V "0x40"] by linarith
qed

lemma split4:
  fixes V :: nat
  shows "V = V div 0x40000 * 0x40000 + (V div 0x1000) mod 0x40 * 0x1000
      + (V div 0x40) mod 0x40 * 0x40 + V mod 0x40"
proof -
  have "V div 0x1000 div 0x40 = V div 0x40000" by (simp add: div_mult2_eq [symmetric])
  then have "V div 0x1000 = V div 0x40000 * 0x40 + (V div 0x1000) mod 0x40"
    using div_mult_mod_eq [of "V div 0x1000" "0x40"] by simp
  then show ?thesis using split3 [of V] by linarith
qed

lemma decode_encode_2:
  assumes "0x80 \<le> V" "V < 0x800"
  shows "utf8_decode_from 0 0 0x80 0xBF ((0xC0 + V div 0x40) # (0x80 + V mod 0x40) # rest) =
     V # utf8_decode_from 0 0 0x80 0xBF rest"
proof -
  define a where "a = V div 0x40"
  define b where "b = V mod 0x40"
  have V: "V = a * 0x40 + b" by (simp add: a_def b_def)
  have b: "b < 0x40" by (simp add: b_def)
  from assms V b have a: "2 \<le> a" "a < 0x20" by linarith+
  have "utf8_decode_from 0 0 0x80 0xBF ((0xC0 + a) # (0x80 + b) # rest) =
      ((0xC0 + a) mod 0x20 * 0x40 + (0x80 + b) mod 0x40) # utf8_decode_from 0 0 0x80 0xBF rest"
    using a b by (intro decode_2) linarith+
  moreover have "(0xC0 + a) mod 0x20 * 0x40 + (0x80 + b) mod 0x40 = V"
    using a b by (simp add: lead_mod V)
  ultimately have "utf8_decode_from 0 0 0x80 0xBF ((0xC0 + a) # (0x80 + b) # rest) =
      V # utf8_decode_from 0 0 0x80 0xBF rest"
    by (simp only:)
  then show ?thesis unfolding a_def b_def .
qed

lemma decode_encode_3:
  assumes "0x800 \<le> V" "V < 0x10000" "\<not> (0xD800 \<le> V \<and> V < 0xE000)"
  shows "utf8_decode_from 0 0 0x80 0xBF
       ((0xE0 + V div 0x1000) # (0x80 + (V div 0x40) mod 0x40) # (0x80 + V mod 0x40) # rest) =
     V # utf8_decode_from 0 0 0x80 0xBF rest"
proof -
  define a where "a = V div 0x1000"
  define b where "b = (V div 0x40) mod 0x40"
  define c where "c = V mod 0x40"
  have V: "V = a * 0x1000 + b * 0x40 + c" unfolding a_def b_def c_def by (rule split3)
  have b: "b < 0x40" and c: "c < 0x40" by (simp_all add: b_def c_def)
  from assms V b c have a: "a < 0x10" by linarith
  from assms V b c have lo: "a = 0 \<Longrightarrow> 0x20 \<le> b" by linarith
  from assms V b c have hi: "a = 0xD \<Longrightarrow> b < 0x20" by linarith
  have "utf8_decode_from 0 0 0x80 0xBF ((0xE0 + a) # (0x80 + b) # (0x80 + c) # rest) =
      (((0xE0 + a) mod 0x10 * 0x40 + (0x80 + b) mod 0x40) * 0x40 + (0x80 + c) mod 0x40) #
        utf8_decode_from 0 0 0x80 0xBF rest"
  proof (intro decode_3)
    show "(if 0xE0 + a = 0xE0 then 0xA0 else 0x80) \<le> 0x80 + b" using lo by auto
    show "0x80 + b \<le> (if 0xE0 + a = 0xED then 0x9F else 0xBF)" using hi b by auto
  qed (use a b c in linarith)+
  moreover have "((0xE0 + a) mod 0x10 * 0x40 + (0x80 + b) mod 0x40) * 0x40
      + (0x80 + c) mod 0x40 = V"
    using a b c by (simp add: lead_mod V)
  ultimately have "utf8_decode_from 0 0 0x80 0xBF
        ((0xE0 + a) # (0x80 + b) # (0x80 + c) # rest) =
      V # utf8_decode_from 0 0 0x80 0xBF rest"
    by (simp only:)
  then show ?thesis unfolding a_def b_def c_def .
qed

lemma decode_encode_4:
  assumes "0x10000 \<le> V" "V < 0x110000"
  shows "utf8_decode_from 0 0 0x80 0xBF
       ((0xF0 + V div 0x40000) # (0x80 + (V div 0x1000) mod 0x40) #
        (0x80 + (V div 0x40) mod 0x40) # (0x80 + V mod 0x40) # rest) =
     V # utf8_decode_from 0 0 0x80 0xBF rest"
proof -
  define a where "a = V div 0x40000"
  define b where "b = (V div 0x1000) mod 0x40"
  define c where "c = (V div 0x40) mod 0x40"
  define d where "d = V mod 0x40"
  have V: "V = a * 0x40000 + b * 0x1000 + c * 0x40 + d"
    unfolding a_def b_def c_def d_def by (rule split4)
  have b: "b < 0x40" and c: "c < 0x40" and d: "d < 0x40" by (simp_all add: b_def c_def d_def)
  from assms V b c d have a: "a \<le> 4" by linarith
  from assms V b c d have lo: "a = 0 \<Longrightarrow> 0x10 \<le> b" by linarith
  from assms V b c d have hi: "a = 4 \<Longrightarrow> b < 0x10" by linarith
  have "utf8_decode_from 0 0 0x80 0xBF
        ((0xF0 + a) # (0x80 + b) # (0x80 + c) # (0x80 + d) # rest) =
      ((((0xF0 + a) mod 8 * 0x40 + (0x80 + b) mod 0x40) * 0x40 + (0x80 + c) mod 0x40) * 0x40
         + (0x80 + d) mod 0x40) # utf8_decode_from 0 0 0x80 0xBF rest"
  proof (intro decode_4)
    show "(if 0xF0 + a = 0xF0 then 0x90 else 0x80) \<le> 0x80 + b" using lo by auto
    show "0x80 + b \<le> (if 0xF0 + a = 0xF4 then 0x8F else 0xBF)" using hi b by auto
  qed (use a b c d in linarith)+
  moreover have "(((0xF0 + a) mod 8 * 0x40 + (0x80 + b) mod 0x40) * 0x40
      + (0x80 + c) mod 0x40) * 0x40 + (0x80 + d) mod 0x40 = V"
    using a b c d by (simp add: lead_mod V)
  ultimately have "utf8_decode_from 0 0 0x80 0xBF
        ((0xF0 + a) # (0x80 + b) # (0x80 + c) # (0x80 + d) # rest) =
      V # utf8_decode_from 0 0 0x80 0xBF rest"
    by (simp only:)
  then show ?thesis unfolding a_def b_def c_def d_def .
qed

lemma decode_encode_code_point:
  assumes "scalar_value V"
  shows "utf8_decode_from 0 0 0x80 0xBF (utf8_encode_code_point V @ rest) =
     V # utf8_decode_from 0 0 0x80 0xBF rest"
proof -
  from assms have lt: "V < 0x110000" and ns: "\<not> (0xD800 \<le> V \<and> V < 0xE000)"
    by (simp_all add: scalar_value_def)
  show ?thesis
  proof (cases "V < 0x80")
    case True
    then have "utf8_encode_code_point V = [V]" by (simp add: utf8_encode_code_point_def)
    moreover from True
    have "utf8_decode_from 0 0 0x80 0xBF (V # rest) = V # utf8_decode_from 0 0 0x80 0xBF rest"
      by (rule decode_1)
    ultimately show ?thesis by (simp only: append_Cons append_Nil)
  next
    case f1: False
    show ?thesis
    proof (cases "V < 0x800")
      case True
      with f1 have "utf8_encode_code_point V = [0xC0 + V div 0x40, 0x80 + V mod 0x40]"
        by (simp add: utf8_encode_code_point_def)
      moreover from f1 True
      have "utf8_decode_from 0 0 0x80 0xBF ((0xC0 + V div 0x40) # (0x80 + V mod 0x40) # rest) =
          V # utf8_decode_from 0 0 0x80 0xBF rest"
        by (intro decode_encode_2) simp_all
      ultimately show ?thesis by (simp only: append_Cons append_Nil)
    next
      case f2: False
      show ?thesis
      proof (cases "V < 0x10000")
        case True
        with f1 f2 have "utf8_encode_code_point V =
            [0xE0 + V div 0x1000, 0x80 + (V div 0x40) mod 0x40, 0x80 + V mod 0x40]"
          by (simp add: utf8_encode_code_point_def)
        moreover from f2 True ns
        have "utf8_decode_from 0 0 0x80 0xBF
            ((0xE0 + V div 0x1000) # (0x80 + (V div 0x40) mod 0x40) # (0x80 + V mod 0x40) # rest) =
            V # utf8_decode_from 0 0 0x80 0xBF rest"
          by (intro decode_encode_3) simp_all
        ultimately show ?thesis by (simp only: append_Cons append_Nil)
      next
        case f3: False
        with f1 f2 have "utf8_encode_code_point V =
            [0xF0 + V div 0x40000, 0x80 + (V div 0x1000) mod 0x40,
             0x80 + (V div 0x40) mod 0x40, 0x80 + V mod 0x40]"
          by (simp add: utf8_encode_code_point_def)
        moreover from f3 lt
        have "utf8_decode_from 0 0 0x80 0xBF
            ((0xF0 + V div 0x40000) # (0x80 + (V div 0x1000) mod 0x40) #
             (0x80 + (V div 0x40) mod 0x40) # (0x80 + V mod 0x40) # rest) =
            V # utf8_decode_from 0 0 0x80 0xBF rest"
          by (intro decode_encode_4) simp_all
        ultimately show ?thesis by (simp only: append_Cons append_Nil)
      qed
    qed
  qed
qed

lemma decode_encode:
  "\<forall>V \<in> set vs. scalar_value V \<Longrightarrow> utf8_decode_from 0 0 0x80 0xBF (utf8_encode vs) = vs"
proof (induction vs)
  case Nil
  show ?case by (simp add: utf8_encode_def)
next
  case (Cons V vs)
  have "utf8_encode (V # vs) = utf8_encode_code_point V @ utf8_encode vs"
    by (simp add: utf8_encode_def)
  with Cons show ?case by (simp add: decode_encode_code_point)
qed

lemma pair_value:
  assumes "0xD800 \<le> c" "c < 0xDC00" "0xDC00 \<le> d" "d < 0xE000"
  shows "scalar_value (0x10000 + (c - 0xD800) * 0x400 + (d - 0xDC00))"
    and "UTF16EncodeCodePoint (0x10000 + (c - 0xD800) * 0x400 + (d - 0xDC00)) = [c, d]"
proof -
  define h where "h = c - 0xD800"
  define l where "l = d - 0xDC00"
  from assms have h: "h < 0x400" "c = h + 0xD800" and l: "l < 0x400" "d = l + 0xDC00"
    by (simp_all add: h_def l_def)
  show "scalar_value (0x10000 + (c - 0xD800) * 0x400 + (d - 0xDC00))"
    unfolding h_def [symmetric] l_def [symmetric] scalar_value_def using h(1) l(1) by linarith
  have "(h * 0x400 + l) div 0x400 = h" "(h * 0x400 + l) mod 0x400 = l"
    using l(1) by simp_all
  then show "UTF16EncodeCodePoint (0x10000 + (c - 0xD800) * 0x400 + (d - 0xDC00)) = [c, d]"
    unfolding h_def [symmetric] l_def [symmetric] by (simp add: UTF16EncodeCodePoint_def h(2) l(2))
qed

lemma well_formed_scalar_values:
  "well_formed s \<Longrightarrow>
     (\<forall>V \<in> set (scalar_values s). scalar_value V) \<and>
     concat (map UTF16EncodeCodePoint (scalar_values s)) = s"
proof (induction s rule: scalar_values.induct)
  case 1
  show ?case by simp
next
  case (2 c cs)
  show ?case
  proof (cases "0xD800 \<le> c \<and> c < 0xDC00")
    case True
    with "2.prems" obtain d ds where cs: "cs = d # ds" and d: "0xDC00 \<le> d" "d < 0xE000"
      and wf: "well_formed ds"
      by (cases cs) auto
    from True d have sv: "scalar_values (c # d # ds) =
        (0x10000 + (c - 0xD800) * 0x400 + (d - 0xDC00)) # scalar_values ds"
      by simp
    from "2.IH"(1) [OF True cs] d wf
    have ih: "(\<forall>V \<in> set (scalar_values ds). scalar_value V) \<and>
        concat (map UTF16EncodeCodePoint (scalar_values ds)) = ds"
      by simp
    from True d have "scalar_value (0x10000 + (c - 0xD800) * 0x400 + (d - 0xDC00))"
      by (intro pair_value(1)) auto
    moreover from True d
    have "UTF16EncodeCodePoint (0x10000 + (c - 0xD800) * 0x400 + (d - 0xDC00)) = [c, d]"
      by (intro pair_value(2)) auto
    ultimately show ?thesis using ih unfolding cs sv by simp
  next
    case False
    with "2.prems" have c: "\<not> (0xDC00 \<le> c \<and> c < 0xE000)" "c < 0x10000"
      and wf: "well_formed cs"
      by auto
    from False c have sv: "scalar_values (c # cs) = c # scalar_values cs" by auto
    from "2.IH"(4) False c wf
    have ih: "(\<forall>V \<in> set (scalar_values cs). scalar_value V) \<and>
        concat (map UTF16EncodeCodePoint (scalar_values cs)) = cs"
      by simp
    from False c have "scalar_value c" "UTF16EncodeCodePoint c = [c]"
      by (auto simp: scalar_value_def UTF16EncodeCodePoint_def)
    with ih show ?thesis unfolding sv by simp
  qed
qed

lemma utf8_round_trip:
  assumes "well_formed s"
  shows "utf8_decode_without_BOM (utf8_bytes s) = s"
  using well_formed_scalar_values [OF assms]
  by (simp add: utf8_decode_without_BOM_def utf8_bytes_def decode_encode)

lemma form_decode_utf8_bytes_plain:
  assumes "well_formed name" and "0x2B \<notin> set name" and "0x25 \<notin> set name"
  shows "form_decode (utf8_bytes name) = name"
proof -
  from assms(2,3) have "0x2B \<notin> set (utf8_bytes name)" "0x25 \<notin> set (utf8_bytes name)"
    by (simp_all add: ascii_in_utf8_bytes)
  then show ?thesis
    by (simp add: form_decode_def plus_to_space_plain percent_decode_plain
        utf8_round_trip [OF assms(1)])
qed

section \<open>Claims about the opener plugin\<close>

text \<open>
  C1, as the code has it. The pattern is not anchored, so the command acts on a path
  that holds the tree segment anywhere. For every location whose path does not contain
  \<open>/griffin-notebooks/\<close> as a contiguous part, the command does nothing: it returns
  normally and requests no document.
\<close>

theorem execute_no_action_without_tree_segment:
  assumes "\<not> sublist TREE_SEGMENT (path parsed)"
  shows "execute parsed = Inr NoAction"
proof -
  from assms have "matched_path (path parsed) = None"
    by (simp add: matched_path_None_iff)
  then show ?thesis by (simp add: execute_def)
qed

theorem execute_no_action_without_tree_segment_witness:
  "\<not> sublist TREE_SEGMENT (js ''/tree/a.ipynb'') \<and>
   execute \<lparr>hash = [], path = js ''/tree/a.ipynb'', request = js ''/tree/a.ipynb'',
            search = Some []\<rparr> = Inr NoAction"
  using execute_no_action_without_tree_segment
    [of "\<lparr>hash = [], path = js ''/tree/a.ipynb'', request = js ''/tree/a.ipynb'',
          search = Some []\<rparr>"]
  by (simp add: TREE_SEGMENT_def js_def sublist_Cons_right prefix_Cons)

text \<open>
  C1, as the spec states it, fails: the path \<open>/lab/griffin-notebooks/a.ipynb\<close> does not
  begin with the tree segment, and the command requests the document \<open>a.ipynb\<close>.
\<close>

theorem execute_opens_path_not_beginning_with_tree_segment:
  "\<not> prefix (js ''/griffin-notebooks/'') (js ''/lab/griffin-notebooks/a.ipynb'') \<and>
   execute \<lparr>hash = [], path = js ''/lab/griffin-notebooks/a.ipynb'',
            request = js ''/lab/griffin-notebooks/a.ipynb'', search = Some []\<rparr> =
     Inr (OpenWhenStarted
       \<lparr>doc_path = js ''a.ipynb'', widgetName = js ''default'', ref = js ''_noref''\<rparr>)"
  by (simp add: execute_def path_defs query_defs cong: eval_congs)

text \<open>
  C2, as the code has it. The command raises nothing when the path holds no percent
  sign; and when it raises, the error is a \<open>URIError\<close>, the pattern has matched, and the
  captured remainder holds a percent sign that \<open>decodeURIComponent\<close> rejects.
\<close>

theorem execute_raises_only_on_rejected_escape:
  "(0x25 \<notin> set (path parsed) \<longrightarrow> (\<exists>a. execute parsed = Inr a)) \<and>
   (execute parsed = Inl err \<longrightarrow>
      err = URIError \<and>
      (\<exists>p. matched_path (path parsed) = Some p \<and> 0x25 \<in> set p \<and>
           decodeURIComponent p = None))"
proof (intro conjI impI)
  assume plain: "0x25 \<notin> set (path parsed)"
  show "\<exists>a. execute parsed = Inr a"
  proof (cases "matched_path (path parsed)")
    case None
    then show ?thesis by (simp add: execute_def)
  next
    case (Some p)
    then have "0x25 \<notin> set p" using plain matched_path_subset by blast
    then have "decodeURIComponent p = Some p" by (rule decodeURIComponent_plain)
    with Some show ?thesis by (simp add: execute_def)
  qed
next
  assume "execute parsed = Inl err"
  then show "err = URIError"
    by (cases err) simp
next
  assume "execute parsed = Inl err"
  then obtain p where p: "matched_path (path parsed) = Some p"
    and d: "decodeURIComponent p = None"
    by (auto simp: execute_def split: option.splits if_splits)
  have "0x25 \<in> set p"
  proof (rule ccontr)
    assume "0x25 \<notin> set p"
    then have "decodeURIComponent p = Some p" by (rule decodeURIComponent_plain)
    with d show False by simp
  qed
  with p d show "\<exists>p. matched_path (path parsed) = Some p \<and> 0x25 \<in> set p \<and>
      decodeURIComponent p = None"
    by blast
qed

theorem execute_raises_only_on_rejected_escape_witness:
  "(0x25 \<notin> set (js ''/griffin-notebooks/a.ipynb'') \<and>
     (\<exists>a. execute \<lparr>hash = [], path = js ''/griffin-notebooks/a.ipynb'', request = [],
                   search = Some []\<rparr> = Inr a)) \<and>
   (execute \<lparr>hash = [], path = js ''/griffin-notebooks/%E0%A4%A'', request = [],
             search = Some []\<rparr> = Inl URIError \<and>
     (\<exists>p. matched_path (js ''/griffin-notebooks/%E0%A4%A'') = Some p \<and> 0x25 \<in> set p \<and>
          decodeURIComponent p = None))"
proof -
  have 1: "0x25 \<notin> set (js ''/griffin-notebooks/a.ipynb'')" by (simp add: js_def)
  have 2: "execute \<lparr>hash = [], path = js ''/griffin-notebooks/%E0%A4%A'', request = [],
      search = Some []\<rparr> = Inl URIError"
    by (simp add: execute_def path_defs cong: eval_congs)
  show ?thesis
    using execute_raises_only_on_rejected_escape
        [of "\<lparr>hash = [], path = js ''/griffin-notebooks/a.ipynb'', request = [],
              search = Some []\<rparr>" URIError]
      execute_raises_only_on_rejected_escape
        [of "\<lparr>hash = [], path = js ''/griffin-notebooks/%E0%A4%A'', request = [],
              search = Some []\<rparr>" URIError]
      1 2
    by simp
qed

text \<open>
  C2, as the spec states it, fails: on the matched path \<open>/griffin-notebooks/%\<close> the
  command throws the \<open>URIError\<close> of \<open>decodeURIComponent\<close>.
\<close>

theorem execute_throws_on_lone_percent:
  "execute \<lparr>hash = [], path = js ''/griffin-notebooks/%'',
            request = js ''/griffin-notebooks/%'', search = Some []\<rparr> = Inl URIError"
  by (simp add: execute_def path_defs cong: eval_congs)

text \<open>
  C3, as the code has it. For every path \<open>/griffin-notebooks/<encoded-id>\<close> whose
  non-empty \<open><encoded-id>\<close> holds no line terminator and is accepted by
  \<open>decodeURIComponent\<close>, the captured remainder is exactly \<open><encoded-id>\<close>, and the
  command requests the document named by its decoding, with the view kind resolved
  from the query string and the placement \<open>_noref\<close>.
\<close>

theorem execute_opens_decoded_remainder:
  assumes "enc \<noteq> []"
    and "\<forall>c \<in> set enc. \<not> LineTerminator c"
    and "decodeURIComponent enc = Some ident"
  shows "matched_path (TREE_SEGMENT @ enc) = Some enc \<and>
         execute \<lparr>hash = h, path = TREE_SEGMENT @ enc, request = r, search = q\<rparr> =
           Inr (OpenWhenStarted
             \<lparr>doc_path = ident, widgetName = factory_name q, ref = js ''_noref''\<rparr>)"
proof -
  from assms(2) have "takeWhile (\<lambda>c. \<not> LineTerminator c) enc = enc"
    by (simp add: takeWhile_eq_all_conv)
  then have "matched_path (TREE_SEGMENT @ enc) = Some enc"
    by (simp add: matched_path_at_start)
  with assms(1,3) show ?thesis by (simp add: execute_def)
qed

theorem execute_opens_decoded_remainder_witness:
  "execute \<lparr>hash = [], path = js ''/griffin-notebooks/foo%2Fbar.ipynb'',
            request = js ''/griffin-notebooks/foo%2Fbar.ipynb?factory=Notebook'',
            search = Some (js ''?factory=Notebook'')\<rparr> =
     Inr (OpenWhenStarted
       \<lparr>doc_path = js ''foo/bar.ipynb'', widgetName = js ''Notebook'', ref = js ''_noref''\<rparr>)"
proof -
  have seg: "js ''/griffin-notebooks/foo%2Fbar.ipynb'' = TREE_SEGMENT @ js ''foo%2Fbar.ipynb''"
    by (simp add: TREE_SEGMENT_def js_def)
  have 1: "js ''foo%2Fbar.ipynb'' \<noteq> []" by (simp add: js_def)
  have 2: "\<forall>c \<in> set (js ''foo%2Fbar.ipynb''). \<not> LineTerminator c"
    by (simp add: js_def LineTerminator_def)
  have 3: "decodeURIComponent (js ''foo%2Fbar.ipynb'') = Some (js ''foo/bar.ipynb'')"
    by (simp add: path_defs cong: eval_congs)
  have 4: "factory_name (Some (js ''?factory=Notebook'')) = js ''Notebook''"
    by (simp add: query_defs cong: eval_congs)
  show ?thesis
    using execute_opens_decoded_remainder [OF 1 2 3, of "[]"
        "js ''/griffin-notebooks/foo%2Fbar.ipynb?factory=Notebook''"
        "Some (js ''?factory=Notebook'')"]
    by (simp only: seg 4)
qed

text \<open>
  C3, as the spec states it, fails on two kinds of remainder. With a line feed in it
  (\<open>a\<close>, U+000A, \<open>b\<close>) the capture stops at the line feed and the document requested is
  \<open>a\<close>, not the decoding of the full remainder; with a percent sign that starts no
  escape (\<open>100%.ipynb\<close>) no document identifier is obtained at all.
\<close>

theorem execute_remainder_cut_or_rejected:
  "execute \<lparr>hash = [], path = js ''/griffin-notebooks/'' @ [0x61, 0x0A, 0x62], request = [],
            search = Some []\<rparr> =
     Inr (OpenWhenStarted
       \<lparr>doc_path = [0x61], widgetName = js ''default'', ref = js ''_noref''\<rparr>) \<and>
   decodeURIComponent [0x61, 0x0A, 0x62] = Some [0x61, 0x0A, 0x62] \<and>
   execute \<lparr>hash = [], path = js ''/griffin-notebooks/100%.ipynb'',
            request = js ''/griffin-notebooks/100%.ipynb'', search = Some []\<rparr> = Inl URIError"
  by (simp add: execute_def path_defs query_defs cong: eval_congs)

text \<open>
  C5. For every location whose path gives no captured remainder, or an empty one, the
  command requests no document; the path \<open>/griffin-notebooks/\<close> is such a path.
\<close>

theorem execute_no_action_on_empty_remainder:
  "matched_path (path parsed) = None \<or> matched_path (path parsed) = Some [] \<Longrightarrow>
   execute parsed = Inr NoAction"
  by (auto simp: execute_def)

theorem execute_no_action_on_empty_remainder_witness:
  "(matched_path (js ''/griffin-notebooks/'') = None \<or>
    matched_path (js ''/griffin-notebooks/'') = Some []) \<and>
   execute \<lparr>hash = [], path = js ''/griffin-notebooks/'', request = js ''/griffin-notebooks/'',
            search = Some []\<rparr> = Inr NoAction"
  using execute_no_action_on_empty_remainder
    [of "\<lparr>hash = [], path = js ''/griffin-notebooks/'', request = js ''/griffin-notebooks/'',
          search = Some []\<rparr>"]
  by (simp add: path_defs cong: eval_congs)

text \<open>
  C7, as the code has it. \<open>URLSearchParams.get\<close> returns the form-decoded value of the
  first parameter named \<open>factory\<close>. For every query string \<open>s\<close> (with or without the
  leading \<open>?\<close>) whose first parameter named \<open>factory\<close> is \<open>factory=<name>\<close>, the
  resolved view kind is \<open><name>\<close> form-decoded: its UTF-8 bytes with \<open>+\<close> read as a
  space and the percent escapes decoded, read back as UTF-8. That is \<open><name>\<close> itself
  when \<open><name>\<close> is well formed and holds neither \<open>+\<close> nor \<open>%\<close>. However the name
  of the parameter is spelt, the view kind is the value of the first parsed pair named
  \<open>factory\<close>; with no pair named \<open>factory\<close> it is \<open>default\<close>.
\<close>

theorem factory_name_first_factory_parameter:
  "(s = before @ js ''factory='' @ name @ tail \<and>
    (before = [] \<or> (\<exists>b. before = b @ [0x26])) \<and>
    js ''factory'' \<notin> fst ` set (urlencoded_parse (utf8_bytes before)) \<and>
    0x26 \<notin> set name \<and>
    (tail = [] \<or> (\<exists>rest. tail = 0x26 # rest)) \<longrightarrow>
      factory_name (Some (js ''?'' @ s)) = form_decode (utf8_bytes name) \<and>
      (hd s \<noteq> 0x3F \<longrightarrow> factory_name (Some s) = form_decode (utf8_bytes name)) \<and>
      (well_formed name \<and> 0x2B \<notin> set name \<and> 0x25 \<notin> set name \<longrightarrow>
         form_decode (utf8_bytes name) = name)) \<and>
   (URLSearchParams_new q = pre @ (js ''factory'', v) # post \<and>
    js ''factory'' \<notin> fst ` set pre \<longrightarrow>
      factory_name q = v) \<and>
   (js ''factory'' \<notin> fst ` set (URLSearchParams_new q) \<longrightarrow>
      factory_name q = js ''default'')"
proof (intro conjI impI)
  assume a: "s = before @ js ''factory='' @ name @ tail \<and>
    (before = [] \<or> (\<exists>b. before = b @ [0x26])) \<and>
    js ''factory'' \<notin> fst ` set (urlencoded_parse (utf8_bytes before)) \<and>
    0x26 \<notin> set name \<and>
    (tail = [] \<or> (\<exists>rest. tail = 0x26 # rest))"
  then show "factory_name (Some (js ''?'' @ s)) = form_decode (utf8_bytes name)"
    by (intro factory_name_of_first_factory(1) [of s before name tail]) blast+
  show "factory_name (Some s) = form_decode (utf8_bytes name)" if "hd s \<noteq> 0x3F"
    using a that
    by (intro factory_name_of_first_factory(2) [of s before name tail]) blast+
  show "form_decode (utf8_bytes name) = name"
    if "well_formed name \<and> 0x2B \<notin> set name \<and> 0x25 \<notin> set name"
    using that by (intro form_decode_utf8_bytes_plain) blast+
next
  assume "URLSearchParams_new q = pre @ (js ''factory'', v) # post \<and>
    js ''factory'' \<notin> fst ` set pre"
  then have "map_of (URLSearchParams_new q) (js ''factory'') = Some v"
    using map_of_first_match [of "js ''factory''" pre v post] by (simp del: map_of_append)
  then show "factory_name q = v"
    by (simp add: factory_name_def URLSearchParams_get_def)
next
  assume "js ''factory'' \<notin> fst ` set (URLSearchParams_new q)"
  then have "map_of (URLSearchParams_new q) (js ''factory'') = None"
    by (simp add: map_of_eq_None_iff)
  then show "factory_name q = js ''default''"
    by (simp add: factory_name_def URLSearchParams_get_def)
qed

theorem factory_name_first_factory_parameter_witness:
  "factory_name (Some (js ''?x=1&factory=Markdown%20Preview&factory=Editor'')) =
     js ''Markdown Preview'' \<and>
   factory_name (Some (js ''x=1&factory=Markdown%20Preview&factory=Editor'')) =
     js ''Markdown Preview'' \<and>
   factory_name (Some (js ''?factory=caf'' @ [0xE9, 0xD83D, 0xDE00])) =
     js ''caf'' @ [0xE9, 0xD83D, 0xDE00] \<and>
   factory_name (Some (js ''?%66actory=Notebook'')) = js ''Notebook'' \<and>
   factory_name (Some (js ''?x=1'')) = js ''default''"
proof -
  have d: "form_decode (utf8_bytes (js ''Markdown%20Preview'')) = js ''Markdown Preview''"
    by (simp add: query_defs cong: eval_congs)
  have p: "urlencoded_parse (utf8_bytes (js ''x=1&'')) = [(js ''x'', js ''1'')]"
    "URLSearchParams_new (Some (js ''?x=1'')) = [(js ''x'', js ''1'')]"
    "URLSearchParams_new (Some (js ''?%66actory=Notebook'')) = [(js ''factory'', js ''Notebook'')]"
    by (simp_all add: query_defs cong: eval_congs)
  have w: "well_formed (js ''caf'' @ [0xE9, 0xD83D, 0xDE00])" by (simp add: js_def)
  have 1: "factory_name (Some (js ''?'' @ js ''x=1&factory=Markdown%20Preview&factory=Editor'')) =
      js ''Markdown Preview'' \<and>
    factory_name (Some (js ''x=1&factory=Markdown%20Preview&factory=Editor'')) =
      js ''Markdown Preview''"
    using factory_name_first_factory_parameter
      [of "js ''x=1&factory=Markdown%20Preview&factory=Editor''" "js ''x=1&''"
        "js ''Markdown%20Preview''" "js ''&factory=Editor''" "None" "[]" "[]" "[]"]
    by (simp add: d p) (simp add: js_def)
  have 2: "factory_name (Some (js ''?'' @ js ''factory='' @ js ''caf'' @ [0xE9, 0xD83D, 0xDE00])) =
      js ''caf'' @ [0xE9, 0xD83D, 0xDE00]"
    using factory_name_first_factory_parameter
      [of "js ''factory='' @ js ''caf'' @ [0xE9, 0xD83D, 0xDE00]" "[]"
        "js ''caf'' @ [0xE9, 0xD83D, 0xDE00]" "[]" "None" "[]" "[]" "[]"] w
    by (simp add: urlencoded_parse_def utf8_bytes_Nil) (simp add: js_def)
  have 3: "factory_name (Some (js ''?%66actory=Notebook'')) = js ''Notebook''"
    using factory_name_first_factory_parameter
      [of "[]" "[]" "[]" "[]" "Some (js ''?%66actory=Notebook'')" "[]" "js ''Notebook''" "[]"]
    by (simp add: p)
  have 4: "factory_name (Some (js ''?x=1'')) = js ''default''"
    using factory_name_first_factory_parameter
      [of "[]" "[]" "[]" "[]" "Some (js ''?x=1'')" "[]" "[]" "[]"]
    by (simp add: p) (simp add: js_def)
  from 1 2 3 4 show ?thesis by (simp add: js_def)
qed

text \<open>
  C7, as the spec states it, fails: the query string \<open>?factory=Markdown+Preview\<close> holds
  \<open>factory=Markdown+Preview\<close> and resolves to \<open>Markdown Preview\<close>, and
  \<open>?factory=a&factory=b\<close> holds \<open>factory=b\<close> and resolves to \<open>a\<close>. A percent escape
  in the name is decoded as well (\<open>Markdown%20Preview\<close> gives \<open>Markdown Preview\<close>), and a
  lone surrogate in the name (here D800) comes back as U+FFFD.
\<close>

theorem factory_name_differs_from_literal_name:
  "factory_name (Some (js ''?factory=Markdown+Preview'')) = js ''Markdown Preview'' \<and>
   factory_name (Some (js ''?factory=Markdown+Preview'')) \<noteq> js ''Markdown+Preview'' \<and>
   factory_name (Some (js ''?factory=a&factory=b'')) = js ''a'' \<and>
   factory_name (Some (js ''?factory=a&factory=b'')) \<noteq> js ''b'' \<and>
   factory_name (Some (js ''?factory=Markdown%20Preview'')) = js ''Markdown Preview'' \<and>
   factory_name (Some (js ''?factory='' @ [0xD800])) = [0xFFFD]"
  by (simp add: query_defs cong: eval_congs)

text \<open>
  C10, as the code has it. For every query string (with or without the leading \<open>?\<close>)
  whose first parameter named \<open>factory\<close> is \<open>factory=\<close> with nothing after the equals
  sign, and more generally whenever the first parsed pair named \<open>factory\<close> has the empty
  value, the resolved view kind is the empty string and not \<open>default\<close>. The view kind
  is \<open>default\<close> only when no pair is named \<open>factory\<close> (or a parameter spells
  \<open>default\<close> out).
\<close>

theorem factory_name_empty_value_kept:
  "(s = before @ js ''factory='' @ tail \<and>
    (before = [] \<or> (\<exists>b. before = b @ [0x26])) \<and>
    js ''factory'' \<notin> fst ` set (urlencoded_parse (utf8_bytes before)) \<and>
    (tail = [] \<or> (\<exists>rest. tail = 0x26 # rest)) \<longrightarrow>
      factory_name (Some (js ''?'' @ s)) = [] \<and>
      factory_name (Some (js ''?'' @ s)) \<noteq> js ''default'' \<and>
      (hd s \<noteq> 0x3F \<longrightarrow> factory_name (Some s) = [])) \<and>
   (URLSearchParams_new q = pre @ (js ''factory'', []) # post \<and>
    js ''factory'' \<notin> fst ` set pre \<longrightarrow>
      factory_name q = [] \<and> factory_name q \<noteq> js ''default'') \<and>
   (factory_name q = js ''default'' \<longrightarrow>
      js ''factory'' \<notin> fst ` set (URLSearchParams_new q) \<or>
      URLSearchParams_get (URLSearchParams_new q) (js ''factory'') = Some (js ''default''))"
proof (intro conjI impI)
  assume a: "s = before @ js ''factory='' @ tail \<and>
    (before = [] \<or> (\<exists>b. before = b @ [0x26])) \<and>
    js ''factory'' \<notin> fst ` set (urlencoded_parse (utf8_bytes before)) \<and>
    (tail = [] \<or> (\<exists>rest. tail = 0x26 # rest))"
  have e: "form_decode (utf8_bytes []) = []"
    by (simp add: form_decode_def plus_to_space_def utf8_decode_without_BOM_def utf8_bytes_Nil)
  from a have "factory_name (Some (js ''?'' @ s)) = form_decode (utf8_bytes [])"
    by (intro factory_name_of_first_factory(1) [of s before "[]" tail]) auto
  with e show q: "factory_name (Some (js ''?'' @ s)) = []" by simp
  then show "factory_name (Some (js ''?'' @ s)) \<noteq> js ''default''" by (simp add: js_def)
  show "factory_name (Some s) = []" if "hd s \<noteq> 0x3F"
  proof -
    from a that have "factory_name (Some s) = form_decode (utf8_bytes [])"
      by (intro factory_name_of_first_factory(2) [of s before "[]" tail]) auto
    with e show ?thesis by simp
  qed
next
  assume "URLSearchParams_new q = pre @ (js ''factory'', []) # post \<and>
    js ''factory'' \<notin> fst ` set pre"
  then have "map_of (URLSearchParams_new q) (js ''factory'') = Some []"
    using map_of_first_match [of "js ''factory''" pre "[]" post] by (simp del: map_of_append)
  then show "factory_name q = []" and "factory_name q \<noteq> js ''default''"
    by (simp_all add: factory_name_def URLSearchParams_get_def js_def)
next
  assume "factory_name q = js ''default''"
  then show "js ''factory'' \<notin> fst ` set (URLSearchParams_new q) \<or>
      URLSearchParams_get (URLSearchParams_new q) (js ''factory'') = Some (js ''default'')"
    by (auto simp: factory_name_def URLSearchParams_get_def map_of_eq_None_iff
        split: option.splits)
qed

theorem factory_name_empty_value_kept_witness:
  "factory_name (Some (js ''?factory='')) = [] \<and>
   factory_name (Some (js ''factory='')) = [] \<and>
   factory_name (Some (js ''?x=1&factory=&factory=Editor'')) = [] \<and>
   factory_name (Some (js ''?factory'')) = [] \<and>
   factory_name (Some (js ''?x=1'')) = js ''default'' \<and>
   js ''factory'' \<notin> fst ` set (URLSearchParams_new (Some (js ''?x=1'')))"
proof -
  have p: "urlencoded_parse (utf8_bytes (js ''x=1&'')) = [(js ''x'', js ''1'')]"
    "URLSearchParams_new (Some (js ''?x=1'')) = [(js ''x'', js ''1'')]"
    "URLSearchParams_new (Some (js ''?factory'')) = [(js ''factory'', [])]"
    by (simp_all add: query_defs cong: eval_congs)
  have d: "factory_name (Some (js ''?x=1'')) = js ''default''"
    by (simp add: query_defs cong: eval_congs)
  have 1: "factory_name (Some (js ''?'' @ js ''factory='')) = [] \<and>
      factory_name (Some (js ''factory='')) = []"
    using factory_name_empty_value_kept [of "js ''factory=''" "[]" "[]" "None" "[]" "[]"]
    by (simp add: urlencoded_parse_def utf8_bytes_Nil) (simp add: js_def)
  have 2: "factory_name (Some (js ''?'' @ js ''x=1&factory=&factory=Editor'')) = []"
    using factory_name_empty_value_kept
      [of "js ''x=1&factory=&factory=Editor''" "js ''x=1&''" "js ''&factory=Editor''"
        "None" "[]" "[]"]
    by (simp add: p) (simp add: js_def)
  have 3: "factory_name (Some (js ''?factory'')) = []"
    using factory_name_empty_value_kept [of "[]" "[]" "[]" "Some (js ''?factory'')" "[]" "[]"]
    by (simp add: p)
  have 4: "js ''factory'' \<notin> fst ` set (URLSearchParams_new (Some (js ''?x=1'')))"
    using factory_name_empty_value_kept [of "[]" "[]" "[]" "Some (js ''?x=1'')" "[]" "[]"] d
    by (simp add: p) (simp add: js_def)
  from 1 2 3 4 d show ?thesis by (simp add: js_def)
qed

text \<open>
  C10, as the spec states it, fails: the query string \<open>?factory=Editor&factory=\<close> holds
  the \<open>factory\<close> key with an empty value, and the view kind is \<open>Editor\<close>, the value of
  the first parameter named \<open>factory\<close>.
\<close>

theorem factory_name_later_empty_value_ignored:
  "factory_name (Some (js ''?factory=Editor&factory='')) = js ''Editor'' \<and>
   factory_name (Some (js ''?factory=Editor&factory='')) \<noteq> []"
  by (simp add: query_defs cong: eval_congs)

section \<open>Claims about the theme, the menus, the shell and the application\<close>

text \<open>
  C4. The theme plugin asks the theme manager for exactly one theme, chosen by the
  option \<open>darkTheme\<close> alone: \<open>JupyterLab Dark\<close> when the option is the string \<open>true\<close>,
  \<open>JupyterLab Light\<close> for any other string and when the option is absent. There is no
  third outcome.
\<close>

theorem theme_activate_dark_iff_true:
  "(config (js ''darkTheme'') = Some (js ''true'') \<longrightarrow>
      theme_activate config tm = setTheme (js ''JupyterLab Dark'') tm) \<and>
   (config (js ''darkTheme'') \<noteq> Some (js ''true'') \<longrightarrow>
      theme_activate config tm = setTheme (js ''JupyterLab Light'') tm) \<and>
   (setTheme_calls (theme_activate config tm) =
      setTheme_calls tm @ [js ''JupyterLab Dark''] \<or>
    setTheme_calls (theme_activate config tm) =
      setTheme_calls tm @ [js ''JupyterLab Light''])"
  by (auto simp: theme_activate_def getOption_def setTheme_def Let_def js_def
      split: option.splits)

theorem theme_activate_dark_iff_true_witness:
  "theme_activate [js ''darkTheme'' \<mapsto> js ''true''] \<lparr>setTheme_calls = []\<rparr> =
     \<lparr>setTheme_calls = [js ''JupyterLab Dark'']\<rparr> \<and>
   theme_activate [js ''darkTheme'' \<mapsto> js ''True''] \<lparr>setTheme_calls = []\<rparr> =
     \<lparr>setTheme_calls = [js ''JupyterLab Light'']\<rparr> \<and>
   theme_activate Map.empty \<lparr>setTheme_calls = []\<rparr> =
     \<lparr>setTheme_calls = [js ''JupyterLab Light'']\<rparr>"
  using
    theme_activate_dark_iff_true
      [of "[js ''darkTheme'' \<mapsto> js ''true'']" "\<lparr>setTheme_calls = []\<rparr>"]
    theme_activate_dark_iff_true
      [of "[js ''darkTheme'' \<mapsto> js ''True'']" "\<lparr>setTheme_calls = []\<rparr>"]
    theme_activate_dark_iff_true [of "Map.empty" "\<lparr>setTheme_calls = []\<rparr>"]
  by (simp add: setTheme_def js_def)

lemma expandTop_funpow: "(expandTop ^^ n) s = s"
  by (induction n) (simp_all add: expandTop_def)

lemma shell_step_hidden: "\<not> topVisible s \<Longrightarrow> \<not> topVisible (shell_step c s)"
  by (cases c) (simp_all add: expandTop_def collapseTop_def)

lemma shell_steps_hidden: "\<not> topVisible s \<Longrightarrow> \<not> topVisible (fold shell_step calls s)"
  by (induction calls arbitrary: s) (simp_all add: shell_step_hidden)

text \<open>
  C6. After the constructor of \<open>GriffinNotebookShell\<close> the top panel is hidden; any number
  of calls of \<open>expandTop\<close> leaves the shell as it is, with the panel hidden; and the panel
  stays hidden under every sequence of calls of the two top-panel operations.
\<close>

theorem top_panel_stays_hidden:
  "\<not> topVisible (GriffinNotebookShell_new base) \<and>
   (expandTop ^^ n) (GriffinNotebookShell_new base) = GriffinNotebookShell_new base \<and>
   \<not> topVisible ((expandTop ^^ n) (GriffinNotebookShell_new base)) \<and>
   \<not> topVisible (fold shell_step calls (GriffinNotebookShell_new base))"
proof -
  have h: "\<not> topVisible (GriffinNotebookShell_new base)"
    by (simp add: GriffinNotebookShell_new_def collapseTop_def)
  then show ?thesis by (simp add: expandTop_funpow shell_steps_hidden)
qed

text \<open>
  C8. The menus plugin disposes the file menu and the tabs menu, and leaves every other
  menu of the menu bar, and whatever else the menu bar holds, as it was.
\<close>

theorem menus_activate_disposes_file_and_tabs_only:
  "isDisposed (fileMenu (menus_activate m)) \<and>
   isDisposed (tabsMenu (menus_activate m)) \<and>
   editMenu (menus_activate m) = editMenu m \<and>
   viewMenu (menus_activate m) = viewMenu m \<and>
   runMenu (menus_activate m) = runMenu m \<and>
   kernelMenu (menus_activate m) = kernelMenu m \<and>
   settingsMenu (menus_activate m) = settingsMenu m \<and>
   helpMenu (menus_activate m) = helpMenu m \<and>
   IMainMenu.more (menus_activate m) = IMainMenu.more m"
  by (simp add: menus_activate_def dispose_def Let_def)

text \<open>
  C9. Without options the base application receives a freshly constructed
  \<open>GriffinNotebookShell\<close> and no other field; with options whose \<open>shell\<close> is absent it
  receives the same options with a freshly constructed \<open>GriffinNotebookShell\<close> as the
  shell; the other fields of supplied options are forwarded unchanged.
\<close>

theorem GriffinNotebookApp_new_default_shell:
  "GriffinNotebookApp_new base None =
     \<lparr>shell = Some (GriffinNotebookShell_new base), other_fields = Map.empty\<rparr> \<and>
   (shell given = None \<longrightarrow>
      GriffinNotebookApp_new base (Some given) =
        given\<lparr>shell := Some (GriffinNotebookShell_new base)\<rparr>) \<and>
   other_fields (GriffinNotebookApp_new base (Some given)) = other_fields given"
  by (simp add: GriffinNotebookApp_new_def Let_def)

theorem GriffinNotebookApp_new_default_shell_witness:
  "GriffinNotebookApp_new \<lparr>topVisible = True\<rparr>
     (Some \<lparr>shell = None, other_fields = [''restored'' \<mapsto> (1::nat)]\<rparr>) =
   \<lparr>shell = Some \<lparr>topVisible = False\<rparr>, other_fields = [''restored'' \<mapsto> (1::nat)]\<rparr>"
proof -
  let ?given = "\<lparr>shell = None :: NotebookShell option,
      other_fields = [''restored'' \<mapsto> (1::nat)]\<rparr>"
  have g: "shell ?given = None" by simp
  have n: "GriffinNotebookShell_new \<lparr>topVisible = True\<rparr> = \<lparr>topVisible = False\<rparr>"
    by (simp add: GriffinNotebookShell_new_def collapseTop_def)
  from GriffinNotebookApp_new_default_shell [of "\<lparr>topVisible = True\<rparr>" ?given]
  have "GriffinNotebookApp_new \<lparr>topVisible = True\<rparr> (Some ?given) =
      ?given\<lparr>shell := Some (GriffinNotebookShell_new \<lparr>topVisible = True\<rparr>)\<rparr>"
    using g by blast
  then show ?thesis by (simp add: n)
qed

end
